theory Spec2Isabelle
  imports Main "HOL-Library.Word"
begin

unbundle bit_operations_syntax

section \<open>Data model of Arachne.h\<close>

text \<open>
  A pointer to a \<open>ThreadContext\<close> is the pair (core, slot) addressing
  \<open>activeLists[core][slot]\<close>; \<open>None\<close> is the C++ \<open>NULL\<close>.
\<close>

type_synonym ctxptr = "nat \<times> nat"

text \<open>\<open>struct ThreadId\<close>: the field \<open>context\<close> is called \<open>context_ptr\<close> here.\<close>

record ThreadId =
  context_ptr :: "ctxptr option"
  generation :: "32 word"

text \<open>The two constructors of \<open>ThreadId\<close>.\<close>

definition ThreadId_of :: "ctxptr option \<Rightarrow> 32 word \<Rightarrow> ThreadId" where
  "ThreadId_of c g = \<lparr>context_ptr = c, generation = g\<rparr>"

definition ThreadId_default :: ThreadId where
  "ThreadId_default = \<lparr>context_ptr = None, generation = 0\<rparr>"

text \<open>\<open>operator==\<close> and \<open>operator!=\<close> of \<open>ThreadId\<close>.\<close>

definition ThreadId_eq :: "ThreadId \<Rightarrow> ThreadId \<Rightarrow> bool" where
  "ThreadId_eq this other =
     (context_ptr this = context_ptr other \<and> generation this = generation other)"

definition ThreadId_neq :: "ThreadId \<Rightarrow> ThreadId \<Rightarrow> bool" where
  "ThreadId_neq this other = (\<not> ThreadId_eq this other)"

text \<open>\<open>const Arachne::ThreadId NullThread;\<close> is default-constructed.\<close>

definition NullThread :: ThreadId where
  "NullThread = ThreadId_default"

text \<open>
  \<open>struct ThreadContext\<close>. The fields \<open>stack\<close>, \<open>sp\<close>, \<open>joinLock\<close> and
  \<open>joinCV\<close> are touched by no function defined in the header and are left out.
  The type \<open>'a\<close> stands for the contents of the \<open>threadInvocation\<close> buffer.
\<close>

record 'a ThreadContext =
  wakeupTimeInCycles :: "64 word"
  ctx_generation :: "32 word"
  idInCore :: "8 word"
  threadInvocation :: 'a

definition maxThreadsPerCore :: nat where
  "maxThreadsPerCore = 56"

definition BLOCKED :: "64 word" where
  "BLOCKED = NOT 0"

definition UNOCCUPIED :: "64 word" where
  "UNOCCUPIED = NOT 0 - 1"

text \<open>
  \<open>struct MaskAndCount\<close>: two bit-fields of 56 and 8 bits that fill one 64-bit
  object, so equality of records is equality of the object representation that
  \<open>compare_exchange_strong\<close> compares.
\<close>

record MaskAndCount =
  occupied :: "56 word"
  numOccupied :: "8 word"

text \<open>
  The globals and thread-locals the header's functions read and write.
  \<open>rand_x\<close>, \<open>rand_y\<close>, \<open>rand_z\<close> are the static variables \<open>x\<close>, \<open>y\<close>, \<open>z\<close>
  of \<open>random()\<close>. \<open>mockRandomValues\<close> exists in the \<open>TEST\<close> build only; the
  empty list is the other build.
\<close>

record 'a runtime =
  numCores :: "32 word"
  kernelThreadId :: int
  loadedContext :: ctxptr
  occupiedAndCount :: "MaskAndCount list"
  activeLists :: "'a ThreadContext list list"
  mockRandomValues :: "64 word list"
  rand_x :: "64 word"
  rand_y :: "64 word"
  rand_z :: "64 word"

text \<open>
  What C++ leaves undefined: an array subscript outside the array, and
  \<open>%\<close> by zero.
\<close>

datatype fault = OutOfBounds | DivideByZero

section \<open>Core-targeted \<open>createThread\<close>\<close>

text \<open>
  The inner search loop
  \<open>while ((slotMap.occupied & (1L << index)) && index < maxThreadsPerCore) index++;\<close>
  The bit-field is read as a 64-bit unsigned value.
\<close>

function searchSlot :: "56 word \<Rightarrow> nat \<Rightarrow> nat" where
  "searchSlot occ index =
     (if ((ucast occ :: 64 word) AND push_bit index 1) \<noteq> 0 \<and> index < maxThreadsPerCore
      then searchSlot occ (index + 1) else index)"
  by pat_completeness auto
termination
  by (relation "measure (\<lambda>(occ, index). maxThreadsPerCore - index)") auto

declare searchSlot.simps [simp del]

text \<open>
  The body of the \<open>do\<close> loop between the snapshot and the compare-and-swap:
  \<open>None\<close> is the \<open>return NullThread\<close> branch, otherwise the index found and
  the new value of \<open>slotMap\<close>.
\<close>

definition reserveSlot :: "MaskAndCount \<Rightarrow> (nat \<times> MaskAndCount) option" where
  "reserveSlot slotMap =
     (let index = searchSlot (occupied slotMap) 0 in
      if index = maxThreadsPerCore then None
      else Some (index,
        slotMap\<lparr>occupied :=
                  ucast (((ucast (occupied slotMap) :: 64 word) OR push_bit index 1)
                         AND 0x00FFFFFFFFFFFFFF),
                numOccupied := numOccupied slotMap + 1\<rparr>))"

text \<open>
  The \<open>do ... while (!success)\<close> loop on core \<open>k\<close>. Other threads may write
  \<open>occupiedAndCount[k]\<close> between the snapshot and the compare-and-swap of an
  iteration: the schedule \<open>env\<close> gives, for each iteration in turn, the value
  they install there (\<open>None\<close>: they write nothing); after the schedule is used
  up nothing interferes. The loop returns its locals \<open>index\<close>, \<open>oldSlotMap\<close>
  and \<open>slotMap\<close> at the successful compare-and-swap, or \<open>None\<close> where the
  source returns \<open>NullThread\<close>.
\<close>

fun createThread_loop ::
  "nat \<Rightarrow> MaskAndCount option list \<Rightarrow> 'a runtime
     \<Rightarrow> (nat \<times> MaskAndCount \<times> MaskAndCount) option \<times> 'a runtime" where
  "createThread_loop k [] s =
     (let oldSlotMap = occupiedAndCount s ! k in
      case reserveSlot oldSlotMap of
        None \<Rightarrow> (None, s)
      | Some (index, slotMap) \<Rightarrow>
          (Some (index, oldSlotMap, slotMap),
           s\<lparr>occupiedAndCount := (occupiedAndCount s)[k := slotMap]\<rparr>))"
| "createThread_loop k (e # env) s =
     (let oldSlotMap = occupiedAndCount s ! k in
      case reserveSlot oldSlotMap of
        None \<Rightarrow> (None, s)
      | Some (index, slotMap) \<Rightarrow>
          (let s1 = (case e of None \<Rightarrow> s
                     | Some w \<Rightarrow> s\<lparr>occupiedAndCount := (occupiedAndCount s)[k := w]\<rparr>)
           in if occupiedAndCount s1 ! k = oldSlotMap
              then (Some (index, oldSlotMap, slotMap),
                    s1\<lparr>occupiedAndCount := (occupiedAndCount s1)[k := slotMap]\<rparr>)
              else createThread_loop k env s1))"

text \<open>
  \<open>createThread(int kId, f, args...)\<close>. \<open>task\<close> is the bound callable that is
  copied into the context's buffer.
\<close>

definition createThread_on ::
  "int \<Rightarrow> 'a \<Rightarrow> MaskAndCount option list \<Rightarrow> 'a runtime \<Rightarrow> fault + (ThreadId \<times> 'a runtime)" where
  "createThread_on kId0 task env s =
     (let kId = (if kId0 = -1 then kernelThreadId s else kId0) in
      if \<not> (0 \<le> kId \<and> nat kId < length (occupiedAndCount s)) then Inl OutOfBounds
      else
        case createThread_loop (nat kId) env s of
          (None, s') \<Rightarrow> Inr (NullThread, s')
        | (Some (index, oldSlotMap, slotMap), s') \<Rightarrow>
            if \<not> (nat kId < length (activeLists s')
                   \<and> index < length (activeLists s' ! nat kId))
            then Inl OutOfBounds
            else
              (let c = activeLists s' ! nat kId ! index;
                   c' = c\<lparr>threadInvocation := task, wakeupTimeInCycles := 0\<rparr>;
                   s'' = s'\<lparr>activeLists :=
                             (activeLists s')[nat kId := (activeLists s' ! nat kId)[index := c']]\<rparr>
               in Inr (ThreadId_of (Some (nat kId, index)) (ctx_generation c'), s'')))"

section \<open>Load-balanced \<open>createThread\<close>\<close>

text \<open>
  \<open>random()\<close>: the front of \<open>mockRandomValues\<close> when there is one, else one
  step of the generator on its three static words.
\<close>

definition random64 :: "'a runtime \<Rightarrow> 64 word \<times> 'a runtime" where
  "random64 s =
     (case mockRandomValues s of
        returnValue # rest \<Rightarrow> (returnValue, s\<lparr>mockRandomValues := rest\<rparr>)
      | [] \<Rightarrow>
          (let x1 = rand_x s XOR push_bit 16 (rand_x s);
               x2 = x1 XOR drop_bit 5 x1;
               x3 = x2 XOR push_bit 1 x2;
               t = x3;
               x' = rand_y s;
               y' = rand_z s;
               z' = t XOR x' XOR y'
           in (z', s\<lparr>rand_x := x', rand_y := y', rand_z := z'\<rparr>)))"

text \<open>
  \<open>static_cast<int>(random()) % numCores\<close>, stored in an \<open>int\<close>. The cast
  keeps the low 32 bits. \<open>numCores\<close> is a \<open>uint32_t\<close>, so the \<open>int\<close> operand
  is converted to \<open>unsigned\<close> and the remainder is unsigned; initialising the
  \<open>int\<close> variable reads those 32 bits as two's complement.
\<close>

definition coreChoice :: "64 word \<Rightarrow> 32 word \<Rightarrow> fault + int" where
  "coreChoice r n =
     (if n = 0 then Inl DivideByZero
      else Inr (sint ((ucast r :: 32 word) mod n)))"

text \<open>
  \<open>while (choice2 == choice1) choice2 = static_cast<int>(random()) % numCores;\<close>
  The loop has no bound: \<open>None\<close> is the run that never leaves it.
\<close>

partial_function (option) chooseOther ::
  "int \<Rightarrow> int \<Rightarrow> 'a runtime \<Rightarrow> (fault + int \<times> 'a runtime) option" where
  "chooseOther choice1 choice2 s =
     (if choice2 = choice1 then
        (case random64 s of
           (r, s') \<Rightarrow>
             (case coreChoice r (numCores s') of
                Inl e \<Rightarrow> Some (Inl e)
              | Inr c \<Rightarrow> chooseOther choice1 c s'))
      else Some (Inr (choice2, s)))"

text \<open>Lines 392 to 395: the two candidates \<open>choice1\<close> and \<open>choice2\<close>.\<close>

definition pickCandidates ::
  "'a runtime \<Rightarrow> (fault + int \<times> int \<times> 'a runtime) option" where
  "pickCandidates s =
     (case random64 s of
        (r1, s1) \<Rightarrow>
          (case coreChoice r1 (numCores s1) of
             Inl e \<Rightarrow> Some (Inl e)
           | Inr choice1 \<Rightarrow>
               (case random64 s1 of
                  (r2, s2) \<Rightarrow>
                    (case coreChoice r2 (numCores s2) of
                       Inl e \<Rightarrow> Some (Inl e)
                     | Inr choice2 \<Rightarrow>
                         (case chooseOther choice1 choice2 s2 of
                            None \<Rightarrow> None
                          | Some (Inl e) \<Rightarrow> Some (Inl e)
                          | Some (Inr (choice2', s3)) \<Rightarrow>
                              Some (Inr (choice1, choice2', s3)))))))"

text \<open>\<open>occupiedAndCount[choice].load().numOccupied\<close>\<close>

definition loadNumOccupied :: "int \<Rightarrow> 'a runtime \<Rightarrow> fault + 8 word" where
  "loadNumOccupied choice s =
     (if 0 \<le> choice \<and> nat choice < length (occupiedAndCount s)
      then Inr (numOccupied (occupiedAndCount s ! nat choice))
      else Inl OutOfBounds)"

text \<open>\<open>createThread(f, args...)\<close>\<close>

definition createThread ::
  "'a \<Rightarrow> MaskAndCount option list \<Rightarrow> 'a runtime
     \<Rightarrow> (fault + ThreadId \<times> 'a runtime) option" where
  "createThread task env s =
     (case pickCandidates s of
        None \<Rightarrow> None
      | Some (Inl e) \<Rightarrow> Some (Inl e)
      | Some (Inr (choice1, choice2, s3)) \<Rightarrow>
          (case loadNumOccupied choice1 s3 of
             Inl e \<Rightarrow> Some (Inl e)
           | Inr n1 \<Rightarrow>
               (case loadNumOccupied choice2 s3 of
                  Inl e \<Rightarrow> Some (Inl e)
                | Inr n2 \<Rightarrow>
                    (let kId = (if n1 < n2 then choice1 else choice2)
                     in Some (createThread_on kId task env s3)))))"

section \<open>\<open>block\<close>\<close>

text \<open>
  \<open>inline void block() { dispatch(); }\<close>. Only the declaration of
  \<open>dispatch\<close> is in the header, so it is a parameter: a state transformer
  that may not return.
\<close>

definition block :: "('a runtime \<Rightarrow> 'a runtime option) \<Rightarrow> 'a runtime \<Rightarrow> 'a runtime option" where
  "block dispatch s = dispatch s"

section \<open>\<open>SpinLock\<close>\<close>

record SpinLock =
  state :: bool

text \<open>\<open>std::atomic<bool>::exchange\<close> and \<open>store\<close> on the field \<open>state\<close>.\<close>

definition exchange :: "bool \<Rightarrow> SpinLock \<Rightarrow> bool \<times> SpinLock" where
  "exchange desired l = (state l, l\<lparr>state := desired\<rparr>)"

definition store :: "bool \<Rightarrow> SpinLock \<Rightarrow> SpinLock" where
  "store desired l = l\<lparr>state := desired\<rparr>"

definition SpinLock_init :: SpinLock where
  "SpinLock_init = \<lparr>state = False\<rparr>"

definition try_lock :: "SpinLock \<Rightarrow> bool \<times> SpinLock" where
  "try_lock l = (case exchange True l of (old, l') \<Rightarrow> (\<not> old, l'))"

definition unlock :: "SpinLock \<Rightarrow> SpinLock" where
  "unlock l = store False l"

text \<open>
  \<open>while (state.exchange(true, std::memory_order_acquire) != false);\<close>
  Between two exchanges of the loop the thread that holds the lock may run
  \<open>unlock()\<close>: the schedule \<open>env\<close> says, for each failed exchange in turn,
  whether it does; after the schedule is used up nobody releases the lock.
  \<open>None\<close> is the run that spins forever.
\<close>

partial_function (option) lock :: "bool list \<Rightarrow> SpinLock \<Rightarrow> SpinLock option" where
  "lock env l =
     (case exchange True l of
        (old, l') \<Rightarrow>
          if old \<noteq> False then
            (case env of
               [] \<Rightarrow> lock [] l'
             | released # env' \<Rightarrow> lock env' (if released then unlock l' else l'))
          else Some l')"

section \<open>Notions the properties are stated with\<close>

text \<open>The number of 1 bits among the 56 bits of \<open>occupied\<close>.\<close>

definition popcount :: "56 word \<Rightarrow> nat" where
  "popcount w = length (filter (bit w) [0..<56])"

text \<open>The comment on \<open>numOccupied\<close>: it is the number of 1 bits in \<open>occupied\<close>.\<close>

definition countMatches :: "MaskAndCount \<Rightarrow> bool" where
  "countMatches m = (unat (numOccupied m) = popcount (occupied m))"

text \<open>\<open>loadedContext->wakeupTimeInCycles\<close>, read and written.\<close>

definition loadedWakeup :: "'a runtime \<Rightarrow> 64 word" where
  "loadedWakeup s =
     wakeupTimeInCycles (activeLists s ! fst (loadedContext s) ! snd (loadedContext s))"

definition storeWakeup :: "ctxptr \<Rightarrow> 64 word \<Rightarrow> 'a runtime \<Rightarrow> 'a runtime" where
  "storeWakeup p w s =
     (case p of (core, slot) \<Rightarrow>
        s\<lparr>activeLists :=
            (activeLists s)[core :=
               (activeLists s ! core)[slot :=
                  (activeLists s ! core ! slot)\<lparr>wakeupTimeInCycles := w\<rparr>]]\<rparr>)"

text \<open>
  The specification's wording of \<open>block\<close>, to compare \<open>block\<close> with: set
  \<open>wakeup_time = BLOCKED\<close>, then invoke dispatcher selection.
\<close>

definition block_as_specified ::
  "('a runtime \<Rightarrow> 'a runtime option) \<Rightarrow> 'a runtime \<Rightarrow> 'a runtime option" where
  "block_as_specified dispatch s = dispatch (storeWakeup (loadedContext s) BLOCKED s)"

section \<open>Example states\<close>

definition exampleContext :: "64 word \<Rightarrow> nat \<Rightarrow> nat ThreadContext" where
  "exampleContext w i =
     \<lparr>wakeupTimeInCycles = w, ctx_generation = 0, idInCore = of_nat i, threadInvocation = 0\<rparr>"

text \<open>
  Two cores: every slot of core 0 holds a thread, core 1 has threads in its
  slots 0 and 2.
\<close>

definition exampleRuntime :: "nat runtime" where
  "exampleRuntime =
     \<lparr>numCores = 2, kernelThreadId = 0, loadedContext = (0, 0),
      occupiedAndCount =
        [\<lparr>occupied = -1, numOccupied = 56\<rparr>, \<lparr>occupied = 5, numOccupied = 2\<rparr>],
      activeLists =
        [map (exampleContext 0) [0..<56],
         map (\<lambda>i. exampleContext (if i = 0 \<or> i = 2 then 0 else UNOCCUPIED) i) [0..<56]],
      mockRandomValues = [],
      rand_x = 123456789, rand_y = 362436069, rand_z = 521288629\<rparr>"

text \<open>The same two cores with three values queued in \<open>mockRandomValues\<close>.\<close>

definition exampleMock :: "nat runtime" where
  "exampleMock = exampleRuntime\<lparr>mockRandomValues := [5, 9, 4]\<rparr>"

text \<open>A single core with one thread.\<close>

definition exampleOneCore :: "nat runtime" where
  "exampleOneCore =
     \<lparr>numCores = 1, kernelThreadId = 0, loadedContext = (0, 0),
      occupiedAndCount = [\<lparr>occupied = 1, numOccupied = 1\<rparr>],
      activeLists =
        [map (\<lambda>i. exampleContext (if i = 0 then 0 else UNOCCUPIED) i) [0..<56]],
      mockRandomValues = [],
      rand_x = 123456789, rand_y = 362436069, rand_z = 521288629\<rparr>"

text \<open>
  The largest \<open>numCores\<close> a \<open>uint32_t\<close> holds, with arrays of that many
  entries.
\<close>

definition hugeWords :: "MaskAndCount list" where
  "hugeWords = replicate 4294967295 \<lparr>occupied = 0, numOccupied = 0\<rparr>"

definition hugeLists :: "nat ThreadContext list list" where
  "hugeLists = replicate 4294967295 (map (exampleContext UNOCCUPIED) [0..<56])"

definition exampleHuge :: "nat runtime" where
  "exampleHuge =
     \<lparr>numCores = 4294967295, kernelThreadId = 0, loadedContext = (0, 0),
      occupiedAndCount = hugeWords,
      activeLists = hugeLists,
      mockRandomValues = [4294967294, 5],
      rand_x = 123456789, rand_y = 362436069, rand_z = 521288629\<rparr>"

section \<open>The slot search\<close>

lemma slot_test_iff:
  "(((ucast (occ :: 56 word) :: 64 word) AND push_bit index 1) \<noteq> 0) = bit occ index"
  using bit_imp_le_length[of occ index]
  by (auto simp add: push_bit_of_1 and_exp_eq_0_iff_not_bit bit_ucast_iff)

lemma slot_test_iff2:
  "(((ucast (occ :: 56 word) :: 64 word) AND 2 ^ index) \<noteq> 0) = bit occ index"
  using slot_test_iff[of occ index] by (simp add: push_bit_of_1)

lemma searchSlot_unfold:
  "searchSlot occ index = (if bit occ index then searchSlot occ (index + 1) else index)"
  apply (subst searchSlot.simps)
  apply (simp only: slot_test_iff)
  using bit_imp_le_length[of occ index] by (auto simp: maxThreadsPerCore_def)

lemma searchSlot_ge: "index \<le> searchSlot occ index"
proof (induction occ index rule: searchSlot.induct)
  case (1 occ index)
  show ?case
  proof (cases "bit occ index")
    case True
    then have "index < maxThreadsPerCore"
      using bit_imp_le_length[of occ index] by (simp add: maxThreadsPerCore_def)
    with True 1 have "index + 1 \<le> searchSlot occ (index + 1)"
      by (simp add: slot_test_iff2)
    with True show ?thesis by (subst searchSlot_unfold) simp
  next
    case False
    then show ?thesis by (subst searchSlot_unfold) simp
  qed
qed

lemma searchSlot_clear: "\<not> bit occ (searchSlot occ index)"
proof (induction occ index rule: searchSlot.induct)
  case (1 occ index)
  show ?case
  proof (cases "bit occ index")
    case True
    then have "index < maxThreadsPerCore"
      using bit_imp_le_length[of occ index] by (simp add: maxThreadsPerCore_def)
    with True 1 have "\<not> bit occ (searchSlot occ (index + 1))"
      by (simp add: slot_test_iff2)
    with True show ?thesis by (subst searchSlot_unfold) simp
  next
    case False
    then show ?thesis by (subst searchSlot_unfold) simp
  qed
qed

lemma searchSlot_below:
  "index \<le> j \<Longrightarrow> j < searchSlot occ index \<Longrightarrow> bit occ j"
proof (induction occ index rule: searchSlot.induct)
  case (1 occ index)
  show ?case
  proof (cases "bit occ index")
    case True
    then have lt: "index < maxThreadsPerCore"
      using bit_imp_le_length[of occ index] by (simp add: maxThreadsPerCore_def)
    from True have eq: "searchSlot occ index = searchSlot occ (index + 1)"
      by (subst searchSlot_unfold) simp
    show ?thesis
    proof (cases "j = index")
      case True
      with \<open>bit occ index\<close> show ?thesis by simp
    next
      case False
      with "1.prems" have "index + 1 \<le> j" by simp
      moreover from "1.prems" eq have "j < searchSlot occ (index + 1)" by simp
      ultimately show ?thesis using "1.IH" True lt by (simp add: slot_test_iff2)
    qed
  next
    case False
    then have "searchSlot occ index = index" by (subst searchSlot_unfold) simp
    with "1.prems" show ?thesis by simp
  qed
qed

lemma searchSlot_le: "index \<le> maxThreadsPerCore \<Longrightarrow> searchSlot occ index \<le> maxThreadsPerCore"
proof (induction occ index rule: searchSlot.induct)
  case (1 occ index)
  show ?case
  proof (cases "bit occ index")
    case True
    then have lt: "index < maxThreadsPerCore"
      using bit_imp_le_length[of occ index] by (simp add: maxThreadsPerCore_def)
    with True 1 have "searchSlot occ (index + 1) \<le> maxThreadsPerCore"
      by (simp add: slot_test_iff2)
    with True show ?thesis by (subst searchSlot_unfold) simp
  next
    case False
    with 1 show ?thesis by (subst searchSlot_unfold) simp
  qed
qed

lemma full_iff_all_bits: "(occ = (-1 :: 56 word)) = (\<forall>j<56. bit occ j)"
proof
  assume "occ = -1" then show "\<forall>j<56. bit occ j" by simp
next
  assume a: "\<forall>j<56. bit occ j"
  show "occ = -1"
    by (rule bit_word_eqI) (use a in simp)
qed

lemma searchSlot_full_iff: "(searchSlot occ 0 = maxThreadsPerCore) = (occ = -1)"
proof
  assume e: "searchSlot occ 0 = maxThreadsPerCore"
  have "\<forall>j<56. bit occ j"
    using searchSlot_below[of 0 _ occ] e by (simp add: maxThreadsPerCore_def)
  then show "occ = -1" by (simp add: full_iff_all_bits)
next
  assume f: "occ = -1"
  have "searchSlot occ 0 \<le> maxThreadsPerCore" by (rule searchSlot_le) simp
  moreover have "\<not> searchSlot occ 0 < maxThreadsPerCore"
    using searchSlot_clear[of occ 0] f by (simp add: maxThreadsPerCore_def)
  ultimately show "searchSlot occ 0 = maxThreadsPerCore" by simp
qed

lemma low56_mask: "(0x00FFFFFFFFFFFFFF :: 64 word) = mask 56"
  by (simp add: mask_eq_exp_minus_1)

lemma install_bit_eq:
  assumes "index < 56"
  shows "(ucast (((ucast (occ :: 56 word) :: 64 word) OR push_bit index 1) AND 0x00FFFFFFFFFFFFFF) :: 56 word)
     = set_bit index occ"
  unfolding low56_mask
  by (rule bit_word_eqI) (use assms in \<open>auto simp add: bit_simps\<close>)

lemma popcount_card: "popcount w = card {j. j < 56 \<and> bit w j}"
proof -
  have "popcount w = card ({j. bit w j} \<inter> set [0..<56])"
    unfolding popcount_def by (rule distinct_length_filter) simp
  also have "{j. bit w j} \<inter> set [0..<56] = {j. j < 56 \<and> bit w j}" by auto
  finally show ?thesis .
qed

lemma popcount_set_bit:
  assumes "index < 56" "\<not> bit w index"
  shows "popcount (set_bit index w) = popcount w + 1"
proof -
  have "{j. j < 56 \<and> bit (set_bit index w) j} = insert index {j. j < 56 \<and> bit w j}"
    using assms by (auto simp add: bit_simps)
  moreover have "finite {j. j < 56 \<and> bit w j}" by simp
  moreover have "index \<notin> {j. j < 56 \<and> bit w j}" using assms by simp
  ultimately show ?thesis by (simp add: popcount_card)
qed

lemma popcount_le: "popcount w \<le> 56"
  unfolding popcount_def using length_filter_le[of "bit w" "[0..<56]"] by simp

lemma popcount_clear_lt:
  assumes "index < 56" "\<not> bit w index"
  shows "popcount w < 56"
  using popcount_set_bit[OF assms] popcount_le[of "set_bit index w"] by simp


section \<open>The retry loop\<close>

lemma reserveSlot_None_iff: "(reserveSlot m = None) = (occupied m = -1)"
  by (simp add: reserveSlot_def Let_def searchSlot_full_iff)

lemma reserveSlot_Some:
  assumes "reserveSlot m = Some (index, m')"
  shows "index < 56" and "\<not> bit (occupied m) index" and "\<forall>j<index. bit (occupied m) j"
    and "m' = \<lparr>occupied = set_bit index (occupied m), numOccupied = numOccupied m + 1\<rparr>"
proof -
  from assms have i: "index = searchSlot (occupied m) 0" and ne: "index \<noteq> maxThreadsPerCore"
    by (auto simp add: reserveSlot_def Let_def split: if_splits)
  have "index \<le> maxThreadsPerCore" unfolding i by (rule searchSlot_le) simp
  with ne show lt: "index < 56" by (simp add: maxThreadsPerCore_def)
  show "\<not> bit (occupied m) index" unfolding i by (rule searchSlot_clear)
  show "\<forall>j<index. bit (occupied m) j" unfolding i using searchSlot_below[of 0 _ "occupied m"] by simp
  from assms ne i have "m' = m\<lparr>occupied :=
                  ucast (((ucast (occupied m) :: 64 word) OR push_bit index 1)
                         AND 0x00FFFFFFFFFFFFFF),
                numOccupied := numOccupied m + 1\<rparr>"
    by (auto simp add: reserveSlot_def Let_def split: if_splits)
  then show "m' = \<lparr>occupied = set_bit index (occupied m), numOccupied = numOccupied m + 1\<rparr>"
    using install_bit_eq[OF lt, of "occupied m"] by simp
qed

lemma createThread_loop_full:
  "occupied (occupiedAndCount s ! k) = -1 \<Longrightarrow> createThread_loop k env s = (None, s)"
  by (cases env) (simp_all add: reserveSlot_None_iff[THEN iffD2])

lemma createThread_loop_Some:
  "createThread_loop k env s = (Some (index, old, new), s') \<Longrightarrow>
     reserveSlot old = Some (index, new) \<and>
     (\<exists>s1. occupiedAndCount s1 ! k = old \<and>
           length (occupiedAndCount s1) = length (occupiedAndCount s) \<and>
           activeLists s1 = activeLists s \<and>
           s' = s1\<lparr>occupiedAndCount := (occupiedAndCount s1)[k := new]\<rparr>)"
proof (induction env arbitrary: s)
  case Nil
  then show ?case by (auto simp add: Let_def split: option.splits)
next
  case (Cons e env)
  show ?case
  proof (cases "reserveSlot (occupiedAndCount s ! k)")
    case None
    with Cons.prems show ?thesis by simp
  next
    case (Some p)
    obtain i m where p: "p = (i, m)" by (cases p)
    define s1 where "s1 = (case e of None \<Rightarrow> s
                     | Some w \<Rightarrow> s\<lparr>occupiedAndCount := (occupiedAndCount s)[k := w]\<rparr>)"
    have len: "length (occupiedAndCount s1) = length (occupiedAndCount s)"
      "activeLists s1 = activeLists s"
      by (simp_all add: s1_def split: option.splits)
    show ?thesis
    proof (cases "occupiedAndCount s1 ! k = occupiedAndCount s ! k")
      case True
      with Cons.prems Some p have "index = i" "old = occupiedAndCount s ! k" "new = m"
        "s' = s1\<lparr>occupiedAndCount := (occupiedAndCount s1)[k := m]\<rparr>"
        by (auto simp add: Let_def s1_def)
      with Some p True len show ?thesis by auto
    next
      case False
      with Cons.prems Some p have "createThread_loop k env s1 = (Some (index, old, new), s')"
        by (simp add: Let_def s1_def)
      from Cons.IH[OF this] len show ?thesis by auto
    qed
  qed
qed

lemma createThread_loop_quiet:
  "reserveSlot (occupiedAndCount s ! k) = Some (index, new) \<Longrightarrow>
   createThread_loop k [] s =
     (Some (index, occupiedAndCount s ! k, new),
      s\<lparr>occupiedAndCount := (occupiedAndCount s)[k := new]\<rparr>)"
  by (simp add: Let_def)

lemma reserveSlot_exists:
  assumes "j < 56" "\<not> bit (occupied m) j"
  shows "\<exists>index new. reserveSlot m = Some (index, new)"
proof -
  from assms have "occupied m \<noteq> -1" by (auto simp add: full_iff_all_bits)
  then have "reserveSlot m \<noteq> None" by (simp add: reserveSlot_None_iff)
  then show ?thesis by auto
qed


lemma createThread_on_full_core:
  assumes "kId = (if kId0 = -1 then kernelThreadId s else kId0)"
      and "0 \<le> kId" and "nat kId < length (occupiedAndCount s)"
      and "\<forall>j<56. bit (occupied (occupiedAndCount s ! nat kId)) j"
  shows "createThread_on kId0 task env s = Inr (NullThread, s)"
proof -
  from assms(4) have "occupied (occupiedAndCount s ! nat kId) = -1"
    by (simp add: full_iff_all_bits)
  then have "createThread_loop (nat kId) env s = (None, s)"
    by (rule createThread_loop_full)
  with assms(1-3) show ?thesis
    by (simp add: createThread_on_def Let_def)
qed

section \<open>Properties of the core-targeted \<open>createThread\<close>\<close>

text \<open>
  Claim C2. When every one of the 56 occupied bits of the target core's word
  is set, \<open>createThread(kId, f, args...)\<close> returns \<open>NullThread\<close> and the
  whole state is as before: the occupancy word of every core and every thread
  context (\<open>wakeupTimeInCycles\<close>, \<open>threadInvocation\<close>, \<open>generation\<close>).
  This holds under every schedule of the other threads, and for \<open>kId = -1\<close>
  with the caller's own core.
\<close>

theorem createThread_on_full_returns_NullThread:
  assumes "kId = (if kId0 = -1 then kernelThreadId s else kId0)"
      and "0 \<le> kId" and "nat kId < length (occupiedAndCount s)"
      and "\<forall>j<56. bit (occupied (occupiedAndCount s ! nat kId)) j"
  shows "createThread_on kId0 task env s = Inr (NullThread, s)"
  using assms by (rule createThread_on_full_core)

theorem createThread_on_full_returns_NullThread_witness:
  "occupied (occupiedAndCount exampleRuntime ! 0) = - 1
   \<and> createThread_on 0 (7::nat) [Some \<lparr>occupied = 0, numOccupied = 0\<rparr>] exampleRuntime
       = Inr (NullThread, exampleRuntime)
   \<and> createThread_on (-1) (7::nat) [] exampleRuntime = Inr (NullThread, exampleRuntime)"
proof -
  have full: "\<forall>j<56. bit (occupied (occupiedAndCount exampleRuntime ! nat 0)) j"
    by (simp add: exampleRuntime_def)
  have len: "nat 0 < length (occupiedAndCount exampleRuntime)"
    by (simp add: exampleRuntime_def)
  have a: "createThread_on 0 (7::nat) [Some \<lparr>occupied = 0, numOccupied = 0\<rparr>] exampleRuntime
       = Inr (NullThread, exampleRuntime)"
    by (rule createThread_on_full_returns_NullThread [where kId = 0]) (use full len in simp_all)
  have b: "createThread_on (-1) (7::nat) [] exampleRuntime = Inr (NullThread, exampleRuntime)"
    by (rule createThread_on_full_returns_NullThread [where kId = 0])
       (use full len in \<open>simp_all add: exampleRuntime_def\<close>)
  have "occupied (occupiedAndCount exampleRuntime ! 0) = - 1"
    by (simp add: exampleRuntime_def)
  with a b show ?thesis by simp
qed

text \<open>
  Claim C3. Whenever the compare-and-swap of \<open>createThread(kId, ...)\<close>
  succeeds, the index it chose is the lowest of 0..55 whose bit is clear in
  the snapshot \<open>oldSlotMap\<close> it compared against, the word was that snapshot
  just before the installation, and the installed word is the snapshot with
  exactly bit \<open>index\<close> set and \<open>numOccupied\<close> incremented by one (the 8-bit
  \<open>++\<close>). The call then returns the \<open>ThreadId\<close> of slot \<open>index\<close> of
  that core. Every word with a clear bit among bits 0..55 yields such an index.
\<close>

theorem createThread_slot_choice:
  assumes k: "k < length (occupiedAndCount s)"
      and run: "createThread_loop k env s = (Some (index, oldSlotMap, slotMap), s')"
  shows "index < 56 \<and> \<not> bit (occupied oldSlotMap) index
       \<and> (\<forall>j<index. bit (occupied oldSlotMap) j)
       \<and> slotMap = \<lparr>occupied = set_bit index (occupied oldSlotMap),
                     numOccupied = numOccupied oldSlotMap + 1\<rparr>
       \<and> (\<exists>s1. occupiedAndCount s1 ! k = oldSlotMap
              \<and> s' = s1\<lparr>occupiedAndCount := (occupiedAndCount s1)[k := slotMap]\<rparr>)
       \<and> occupiedAndCount s' ! k = slotMap
       \<and> (0 \<le> kId \<and> nat kId = k \<and> kId = (if kId0 = -1 then kernelThreadId s else kId0)
            \<and> k < length (activeLists s) \<and> index < length (activeLists s ! k) \<longrightarrow>
          (\<exists>s2. createThread_on kId0 task env s =
                  Inr (ThreadId_of (Some (k, index))
                         (ctx_generation (activeLists s ! k ! index)), s2)
                \<and> occupiedAndCount s2 ! k = slotMap))
       \<and> (\<forall>w. (\<exists>j<56. \<not> bit (occupied w) j) \<longrightarrow>
              (\<exists>i. reserveSlot w =
                     Some (i, \<lparr>occupied = set_bit i (occupied w), numOccupied = numOccupied w + 1\<rparr>)
                   \<and> i < 56 \<and> \<not> bit (occupied w) i \<and> (\<forall>j<i. bit (occupied w) j)))"
proof -
  from createThread_loop_Some[OF run] obtain s1 where
    r: "reserveSlot oldSlotMap = Some (index, slotMap)" and
    old: "occupiedAndCount s1 ! k = oldSlotMap" and
    len: "length (occupiedAndCount s1) = length (occupiedAndCount s)" and
    act: "activeLists s1 = activeLists s" and
    s': "s' = s1\<lparr>occupiedAndCount := (occupiedAndCount s1)[k := slotMap]\<rparr>"
    by blast
  note p = reserveSlot_Some[OF r]
  have inst: "occupiedAndCount s' ! k = slotMap" using k len s' by simp
  have api: "\<exists>s2. createThread_on kId0 task env s =
                  Inr (ThreadId_of (Some (k, index))
                         (ctx_generation (activeLists s ! k ! index)), s2)
                \<and> occupiedAndCount s2 ! k = slotMap"
    if "0 \<le> kId \<and> nat kId = k \<and> kId = (if kId0 = -1 then kernelThreadId s else kId0)
            \<and> k < length (activeLists s) \<and> index < length (activeLists s ! k)"
  proof -
    from s' act have a: "activeLists s' = activeLists s" by simp
    from that k run a inst show ?thesis
      by (auto simp add: createThread_on_def Let_def)
  qed
  have gen: "\<exists>i. reserveSlot w =
                     Some (i, \<lparr>occupied = set_bit i (occupied w), numOccupied = numOccupied w + 1\<rparr>)
                   \<and> i < 56 \<and> \<not> bit (occupied w) i \<and> (\<forall>j<i. bit (occupied w) j)"
    if "\<exists>j<56. \<not> bit (occupied w) j" for w
  proof -
    from that obtain j where "j < 56" "\<not> bit (occupied w) j" by blast
    from reserveSlot_exists[OF this] obtain i new where e: "reserveSlot w = Some (i, new)" by blast
    from reserveSlot_Some[OF e] e show ?thesis by blast
  qed
  from p old s' inst api gen show ?thesis by blast
qed

theorem createThread_slot_choice_witness:
  "createThread_loop 1 [] exampleRuntime =
     (Some (1, \<lparr>occupied = 5, numOccupied = 2\<rparr>, \<lparr>occupied = 7, numOccupied = 3\<rparr>),
      exampleRuntime\<lparr>occupiedAndCount :=
         [\<lparr>occupied = -1, numOccupied = 56\<rparr>, \<lparr>occupied = 7, numOccupied = 3\<rparr>]\<rparr>)
   \<and> \<not> bit (5 :: 56 word) 1 \<and> bit (5 :: 56 word) 0
   \<and> (7 :: 56 word) = set_bit 1 5
   \<and> (\<exists>s2. createThread_on 1 (7::nat) [] exampleRuntime =
                Inr (ThreadId_of (Some (1, 1)) 0, s2)
             \<and> occupiedAndCount s2 ! 1 = \<lparr>occupied = 7, numOccupied = 3\<rparr>)"
proof -
  have len: "1 < length (occupiedAndCount exampleRuntime)"
    by (simp add: exampleRuntime_def)
  have run: "createThread_loop 1 [] exampleRuntime =
     (Some (1, \<lparr>occupied = 5, numOccupied = 2\<rparr>, \<lparr>occupied = 7, numOccupied = 3\<rparr>),
      exampleRuntime\<lparr>occupiedAndCount :=
         [\<lparr>occupied = -1, numOccupied = 56\<rparr>, \<lparr>occupied = 7, numOccupied = 3\<rparr>]\<rparr>)"
    by (simp add: exampleRuntime_def reserveSlot_def searchSlot_unfold maxThreadsPerCore_def)
  have act: "1 < length (activeLists exampleRuntime)"
    "1 < length (activeLists exampleRuntime ! 1)"
    "ctx_generation (activeLists exampleRuntime ! 1 ! 1) = 0"
    by (simp_all add: exampleRuntime_def exampleContext_def)
  note t = createThread_slot_choice[OF len run, of 1 1 7]
  from t act have "\<exists>s2. createThread_on 1 (7::nat) [] exampleRuntime =
                Inr (ThreadId_of (Some (1, 1)) 0, s2)
             \<and> occupiedAndCount s2 ! 1 = \<lparr>occupied = 7, numOccupied = 3\<rparr>"
    by simp
  with t run show ?thesis by simp
qed

text \<open>
  Claim C4. If the snapshot a compare-and-swap of \<open>createThread\<close> succeeds
  against has \<open>numOccupied\<close> equal to the number of 1 bits of \<open>occupied\<close>,
  so has the word it installs.
\<close>

theorem createThread_keeps_count:
  assumes k: "k < length (occupiedAndCount s)"
      and run: "createThread_loop k env s = (Some (index, oldSlotMap, slotMap), s')"
      and inv: "countMatches oldSlotMap"
  shows "countMatches slotMap \<and> countMatches (occupiedAndCount s' ! k)"
proof -
  from createThread_loop_Some[OF run] obtain s1 where
    r: "reserveSlot oldSlotMap = Some (index, slotMap)" and
    len: "length (occupiedAndCount s1) = length (occupiedAndCount s)" and
    s': "s' = s1\<lparr>occupiedAndCount := (occupiedAndCount s1)[k := slotMap]\<rparr>"
    by blast
  note p = reserveSlot_Some[OF r]
  have lt: "popcount (occupied oldSlotMap) < 56" using p(1,2) by (rule popcount_clear_lt)
  have "unat (numOccupied oldSlotMap + 1) = unat (numOccupied oldSlotMap) + 1"
    using inv lt by (simp add: countMatches_def unat_word_ariths)
  moreover have "popcount (set_bit index (occupied oldSlotMap)) = popcount (occupied oldSlotMap) + 1"
    using p(1,2) by (rule popcount_set_bit)
  ultimately have "countMatches slotMap"
    using inv p(4) by (simp add: countMatches_def)
  moreover have "occupiedAndCount s' ! k = slotMap" using k len s' by simp
  ultimately show ?thesis by simp
qed

theorem createThread_keeps_count_witness:
  "countMatches \<lparr>occupied = 5, numOccupied = 2\<rparr>
   \<and> countMatches \<lparr>occupied = 7, numOccupied = 3\<rparr>
   \<and> countMatches (occupiedAndCount (snd (createThread_loop 1 [] exampleRuntime)) ! 1)"
proof -
  have len: "1 < length (occupiedAndCount exampleRuntime)"
    by (simp add: exampleRuntime_def)
  have run: "createThread_loop 1 [] exampleRuntime =
     (Some (1, \<lparr>occupied = 5, numOccupied = 2\<rparr>, \<lparr>occupied = 7, numOccupied = 3\<rparr>),
      snd (createThread_loop 1 [] exampleRuntime))"
    by (simp add: exampleRuntime_def reserveSlot_def searchSlot_unfold maxThreadsPerCore_def)
  have inv: "countMatches \<lparr>occupied = 5, numOccupied = 2\<rparr>"
    by code_simp
  from createThread_keeps_count[OF len run inv] inv show ?thesis by simp
qed

section \<open>\<open>ThreadId\<close> and \<open>NullThread\<close>\<close>

text \<open>
  Claim C10. A default-constructed \<open>ThreadId\<close> has a null context and
  generation 0 and is \<open>==\<close> to \<open>NullThread\<close>; \<open>!=\<close> is the negation of
  \<open>==\<close>; what \<open>createThread\<close> returns on a full core is \<open>==\<close> to
  \<open>NullThread\<close>.
\<close>

theorem NullThread_is_default_ThreadId:
  "context_ptr ThreadId_default = None \<and> generation ThreadId_default = 0
   \<and> ThreadId_eq ThreadId_default NullThread
   \<and> ThreadId_neq a b = (\<not> ThreadId_eq a b)
   \<and> (0 \<le> (if kId0 = -1 then kernelThreadId s else kId0)
        \<and> nat (if kId0 = -1 then kernelThreadId s else kId0) < length (occupiedAndCount s)
        \<and> (\<forall>j<56. bit (occupied (occupiedAndCount s !
                       nat (if kId0 = -1 then kernelThreadId s else kId0))) j)
      \<longrightarrow> (\<exists>tid s'. createThread_on kId0 task env s = Inr (tid, s')
              \<and> ThreadId_eq tid NullThread \<and> \<not> ThreadId_neq tid NullThread))"
proof -
  have "ThreadId_eq NullThread NullThread" by (simp add: ThreadId_eq_def)
  then show ?thesis
    using createThread_on_full_core[of _ kId0 s task env]
    by (auto simp add: ThreadId_default_def NullThread_def ThreadId_eq_def ThreadId_neq_def)
qed

theorem NullThread_is_default_ThreadId_witness:
  "\<exists>tid s'. createThread_on 0 (7::nat) [] exampleRuntime = Inr (tid, s')
              \<and> ThreadId_eq tid NullThread \<and> \<not> ThreadId_neq tid NullThread"
proof -
  have full: "\<forall>j<56. bit (occupied (occupiedAndCount exampleRuntime ! nat 0)) j"
    by (simp add: exampleRuntime_def)
  have len: "nat 0 < length (occupiedAndCount exampleRuntime)"
    by (simp add: exampleRuntime_def)
  from NullThread_is_default_ThreadId[of NullThread NullThread 0 exampleRuntime 7 "[]"] full len
  show ?thesis by simp
qed


section \<open>Properties of the load-balanced \<open>createThread\<close>\<close>

lemma random64_frame:
  assumes "random64 s = (r, s')"
  shows "numCores s' = numCores s" and "occupiedAndCount s' = occupiedAndCount s"
    and "activeLists s' = activeLists s" and "kernelThreadId s' = kernelThreadId s"
  using assms by (auto simp add: random64_def Let_def split: list.splits)

lemma coreChoice_single: "coreChoice r 1 = Inr 0"
  by (simp add: coreChoice_def)

lemma chooseOther_single_stuck:
  assumes "chooseOther c1 c2 s = Some y"
  shows "\<not> (c1 = 0 \<and> c2 = 0 \<and> numCores s = 1)"
proof (rule chooseOther.raw_induct
    [where P = "\<lambda>c1 c2 s y. \<not> (c1 = 0 \<and> c2 = 0 \<and> numCores s = 1)", OF _ assms])
  fix f :: "int \<Rightarrow> int \<Rightarrow> 'a runtime \<Rightarrow> (fault + int \<times> 'a runtime) option"
  fix c1 c2 s y
  assume IH: "\<And>c1 c2 s y. f c1 c2 s = Some y \<Longrightarrow> \<not> (c1 = 0 \<and> c2 = 0 \<and> numCores s = 1)"
  assume step: "(if c2 = c1
      then case random64 s of
           (r, s') \<Rightarrow>
             case coreChoice r (numCores s') of Inl e \<Rightarrow> Some (Inl e)
             | Inr c \<Rightarrow> f c1 c s'
      else Some (Inr (c2, s))) = Some y"
  show "\<not> (c1 = 0 \<and> c2 = 0 \<and> numCores s = 1)"
  proof
    assume a: "c1 = 0 \<and> c2 = 0 \<and> numCores s = 1"
    obtain r s' where r: "random64 s = (r, s')" by (cases "random64 s")
    from random64_frame(1)[OF r] a have n: "numCores s' = 1" by simp
    from step a r n have "f 0 0 s' = Some y" by (simp add: coreChoice_single)
    from IH[OF this] n show False by simp
  qed
qed

lemma chooseOther_single: "numCores s = 1 \<Longrightarrow> chooseOther 0 0 s = None"
  using chooseOther_single_stuck[of 0 0 s] by (cases "chooseOther 0 0 s") auto

lemma pickCandidates_single:
  assumes "numCores s = 1"
  shows "pickCandidates s = None"
proof -
  obtain r1 s1 where r1: "random64 s = (r1, s1)" by (cases "random64 s")
  obtain r2 s2 where r2: "random64 s1 = (r2, s2)" by (cases "random64 s1")
  from random64_frame(1)[OF r1] assms have n1: "numCores s1 = 1" by simp
  from random64_frame(1)[OF r2] n1 have n2: "numCores s2 = 1" by simp
  from r1 r2 n1 n2 chooseOther_single[OF n2] show ?thesis
    by (simp add: pickCandidates_def coreChoice_single)
qed

lemma chooseOther_distinct:
  assumes "chooseOther c1 c2 s = Some y"
  shows "\<forall>c s'. y = Inr (c, s') \<longrightarrow> c \<noteq> c1"
proof (rule chooseOther.raw_induct
    [where P = "\<lambda>c1 c2 s y. \<forall>c s'. y = Inr (c, s') \<longrightarrow> c \<noteq> c1", OF _ assms])
  fix f :: "int \<Rightarrow> int \<Rightarrow> 'a runtime \<Rightarrow> (fault + int \<times> 'a runtime) option"
  fix c1 c2 s y
  assume IH: "\<And>c1 c2 s y. f c1 c2 s = Some y \<Longrightarrow> \<forall>c s'. y = Inr (c, s') \<longrightarrow> c \<noteq> c1"
  assume step: "(if c2 = c1
      then case random64 s of
           (r, s') \<Rightarrow>
             case coreChoice r (numCores s') of Inl e \<Rightarrow> Some (Inl e)
             | Inr c \<Rightarrow> f c1 c s'
      else Some (Inr (c2, s))) = Some y"
  show "\<forall>c s'. y = Inr (c, s') \<longrightarrow> c \<noteq> c1"
  proof (cases "c2 = c1")
    case False
    with step show ?thesis by auto
  next
    case True
    obtain r s' where r: "random64 s = (r, s')" by (cases "random64 s")
    show ?thesis
    proof (cases "coreChoice r (numCores s')")
      case (Inl e)
      with step True r show ?thesis by auto
    next
      case (Inr c)
      with step True r have "f c1 c s' = Some y" by simp
      from IH[OF this] show ?thesis .
    qed
  qed
qed

lemma pickCandidates_distinct:
  assumes "pickCandidates s = Some (Inr (choice1, choice2, s3))"
  shows "choice1 \<noteq> choice2"
proof -
  obtain r1 s1 where r1: "random64 s = (r1, s1)" by (cases "random64 s")
  obtain r2 s2 where r2: "random64 s1 = (r2, s2)" by (cases "random64 s1")
  from assms r1 r2 obtain c2 where "chooseOther choice1 c2 s2 = Some (Inr (choice2, s3))"
    by (auto simp add: pickCandidates_def split: sum.splits option.splits)
  from chooseOther_distinct[OF this] show ?thesis by auto
qed

lemma sint_small:
  fixes q :: "32 word"
  assumes "uint q < 2 ^ 31"
  shows "sint q = uint q"
proof -
  have "sint q = signed_take_bit (LENGTH(32) - Suc 0) (uint q)" by (rule sint_uint)
  also have "\<dots> = uint q"
  proof (rule signed_take_bit_int_eq_self)
    show "- (2 ^ (LENGTH(32) - Suc 0)) \<le> uint q"
      by (rule order_trans[of _ 0]) simp_all
    from assms show "uint q < 2 ^ (LENGTH(32) - Suc 0)" by simp
  qed
  finally show ?thesis .
qed

lemma coreChoice_range:
  assumes "n \<noteq> 0" and "uint n \<le> 2 ^ 31"
  shows "\<exists>c. coreChoice r n = Inr c \<and> 0 \<le> c \<and> c < uint n"
proof -
  define q where "q = (ucast r :: 32 word) mod n"
  from assms(1) have "0 < n" by (simp add: word_neq_0_conv)
  then have "q < n" unfolding q_def by (rule word_mod_less_divisor)
  then have lt: "uint q < uint n" by (simp add: word_less_def)
  with assms(2) have "uint q < 2 ^ 31" by simp
  then have "sint q = uint q" by (rule sint_small)
  with lt assms(1) show ?thesis by (simp add: coreChoice_def q_def)
qed

lemma chooseOther_range:
  assumes "chooseOther c1 c2 s = Some y"
  shows "numCores s \<noteq> 0 \<and> uint (numCores s) \<le> 2 ^ 31 \<and> 0 \<le> c2 \<and> c2 < uint (numCores s) \<longrightarrow>
         (\<exists>c s'. y = Inr (c, s') \<and> 0 \<le> c \<and> c < uint (numCores s)
               \<and> numCores s' = numCores s \<and> occupiedAndCount s' = occupiedAndCount s)"
proof (rule chooseOther.raw_induct
    [where P = "\<lambda>c1 c2 s y. numCores s \<noteq> 0 \<and> uint (numCores s) \<le> 2 ^ 31 \<and> 0 \<le> c2 \<and> c2 < uint (numCores s) \<longrightarrow>
         (\<exists>c s'. y = Inr (c, s') \<and> 0 \<le> c \<and> c < uint (numCores s)
               \<and> numCores s' = numCores s \<and> occupiedAndCount s' = occupiedAndCount s)", OF _ assms])
  fix f :: "int \<Rightarrow> int \<Rightarrow> 'a runtime \<Rightarrow> (fault + int \<times> 'a runtime) option"
  fix c1 c2 s y
  assume IH: "\<And>c1 c2 s y. f c1 c2 s = Some y \<Longrightarrow>
         numCores s \<noteq> 0 \<and> uint (numCores s) \<le> 2 ^ 31 \<and> 0 \<le> c2 \<and> c2 < uint (numCores s) \<longrightarrow>
         (\<exists>c s'. y = Inr (c, s') \<and> 0 \<le> c \<and> c < uint (numCores s)
               \<and> numCores s' = numCores s \<and> occupiedAndCount s' = occupiedAndCount s)"
  assume step: "(if c2 = c1
      then case random64 s of
           (r, s') \<Rightarrow>
             case coreChoice r (numCores s') of Inl e \<Rightarrow> Some (Inl e)
             | Inr c \<Rightarrow> f c1 c s'
      else Some (Inr (c2, s))) = Some y"
  show "numCores s \<noteq> 0 \<and> uint (numCores s) \<le> 2 ^ 31 \<and> 0 \<le> c2 \<and> c2 < uint (numCores s) \<longrightarrow>
         (\<exists>c s'. y = Inr (c, s') \<and> 0 \<le> c \<and> c < uint (numCores s)
               \<and> numCores s' = numCores s \<and> occupiedAndCount s' = occupiedAndCount s)"
  proof
    assume a: "numCores s \<noteq> 0 \<and> uint (numCores s) \<le> 2 ^ 31 \<and> 0 \<le> c2 \<and> c2 < uint (numCores s)"
    show "\<exists>c s'. y = Inr (c, s') \<and> 0 \<le> c \<and> c < uint (numCores s)
               \<and> numCores s' = numCores s \<and> occupiedAndCount s' = occupiedAndCount s"
    proof (cases "c2 = c1")
      case False
      with step a show ?thesis by auto
    next
      case True
      obtain r s1 where r: "random64 s = (r, s1)" by (cases "random64 s")
      note fr = random64_frame[OF r]
      from a fr(1) have n: "numCores s1 \<noteq> 0" "uint (numCores s1) \<le> 2 ^ 31" by simp_all
      from coreChoice_range[OF n, of r] obtain c where
        c: "coreChoice r (numCores s1) = Inr c" "0 \<le> c" "c < uint (numCores s1)" by blast
      from step True r c(1) have "f c1 c s1 = Some y" by simp
      from IH[OF this] n c(2,3) fr(1,2) show ?thesis by simp
    qed
  qed
qed

lemma pickCandidates_range:
  assumes n: "numCores s \<noteq> 0" "uint (numCores s) \<le> 2 ^ 31"
  shows "pickCandidates s = None \<or>
         (\<exists>c1 c2 s3. pickCandidates s = Some (Inr (c1, c2, s3))
            \<and> 0 \<le> c1 \<and> c1 < uint (numCores s) \<and> 0 \<le> c2 \<and> c2 < uint (numCores s)
            \<and> occupiedAndCount s3 = occupiedAndCount s)"
proof -
  obtain r1 s1 where r1: "random64 s = (r1, s1)" by (cases "random64 s")
  obtain r2 s2 where r2: "random64 s1 = (r2, s2)" by (cases "random64 s1")
  note f1 = random64_frame[OF r1] and f2 = random64_frame[OF r2]
  from n f1(1) have n1: "numCores s1 \<noteq> 0" "uint (numCores s1) \<le> 2 ^ 31" by simp_all
  from n1 f2(1) have n2: "numCores s2 \<noteq> 0" "uint (numCores s2) \<le> 2 ^ 31" by simp_all
  from coreChoice_range[OF n1, of r1] obtain c1 where
    c1: "coreChoice r1 (numCores s1) = Inr c1" "0 \<le> c1" "c1 < uint (numCores s1)" by blast
  from coreChoice_range[OF n2, of r2] obtain c2 where
    c2: "coreChoice r2 (numCores s2) = Inr c2" "0 \<le> c2" "c2 < uint (numCores s2)" by blast
  show ?thesis
  proof (cases "chooseOther c1 c2 s2")
    case None
    with r1 r2 c1(1) c2(1) show ?thesis by (simp add: pickCandidates_def)
  next
    case (Some y)
    from chooseOther_range[OF Some] n2 c2(2,3) obtain c s3 where
      y: "y = Inr (c, s3)" "0 \<le> c" "c < uint (numCores s2)" "occupiedAndCount s3 = occupiedAndCount s2"
      by blast
    from r1 r2 c1(1) c2(1) Some y(1) have "pickCandidates s = Some (Inr (c1, c, s3))"
      by (simp add: pickCandidates_def)
    with c1(2,3) y(2,3,4) f1 f2 show ?thesis by simp
  qed
qed

lemma loadNumOccupied_in_bounds:
  assumes "0 \<le> c" "c < uint (numCores s)" "length (occupiedAndCount s) = unat (numCores s)"
  shows "loadNumOccupied c s = Inr (numOccupied (occupiedAndCount s ! nat c))"
proof -
  from assms(2) have "c < int (unat (numCores s))" by (simp only: uint_nat)
  with assms(1) have "nat c < unat (numCores s)" by linarith
  with assms show ?thesis by (simp add: loadNumOccupied_def)
qed

text \<open>
  Claim C5. When the load-balanced \<open>createThread\<close> has its two candidates
  and reads their counts, the candidates are distinct, the call is the
  core-targeted \<open>createThread\<close> on the candidate with the strictly smaller
  \<open>numOccupied\<close>, and on the second candidate when the counts are equal.
\<close>

theorem createThread_two_choices:
  assumes pick: "pickCandidates s = Some (Inr (choice1, choice2, s3))"
      and n1: "loadNumOccupied choice1 s3 = Inr n1"
      and n2: "loadNumOccupied choice2 s3 = Inr n2"
  shows "choice1 \<noteq> choice2
       \<and> createThread task env s =
           Some (createThread_on (if n1 < n2 then choice1 else choice2) task env s3)
       \<and> (n1 = n2 \<longrightarrow> createThread task env s = Some (createThread_on choice2 task env s3))"
  using pickCandidates_distinct[OF pick] pick n1 n2
  by (simp add: createThread_def)


theorem createThread_two_choices_witness:
  "pickCandidates exampleMock = Some (Inr (1, 0, exampleRuntime))
   \<and> loadNumOccupied 1 exampleRuntime = Inr 2
   \<and> loadNumOccupied 0 exampleRuntime = Inr 56
   \<and> createThread (7::nat) [] exampleMock = Some (createThread_on 1 7 [] exampleRuntime)"
proof -
  have pick: "pickCandidates exampleMock = Some (Inr (1, 0, exampleRuntime))"
    by (simp add: pickCandidates_def exampleMock_def exampleRuntime_def random64_def
      coreChoice_def chooseOther.simps)
  have n1: "loadNumOccupied 1 exampleRuntime = Inr 2"
    by (simp add: loadNumOccupied_def exampleRuntime_def)
  have n2: "loadNumOccupied 0 exampleRuntime = Inr 56"
    by (simp add: loadNumOccupied_def exampleRuntime_def)
  from createThread_two_choices[OF pick n1 n2, of 7 "[]"] pick n1 n2 show ?thesis by simp
qed

text \<open>
  Claim C6. With \<open>numCores = 1\<close> the load-balanced \<open>createThread\<close> never
  returns, whatever \<open>random()\<close> yields: both candidates are 0 and stay 0.
\<close>

theorem createThread_single_core_never_returns:
  assumes "numCores s = 1"
  shows "createThread task env s = None"
  using pickCandidates_single[OF assms] by (simp add: createThread_def)

theorem createThread_single_core_never_returns_witness:
  "numCores exampleOneCore = 1 \<and> createThread (7::nat) [] exampleOneCore = None"
proof -
  have n: "numCores exampleOneCore = 1" by (simp add: exampleOneCore_def)
  from createThread_single_core_never_returns[OF n] n show ?thesis by simp
qed

text \<open>
  Claim C7, as stated, fails: \<open>numCores\<close> is a \<open>uint32_t\<close> and the candidate
  an \<open>int\<close>, so with \<open>numCores = 4294967295\<close> and \<open>random()\<close> returning
  \<open>4294967294\<close> the candidate is \<open>-2\<close>, and the read of
  \<open>occupiedAndCount[-2]\<close> is outside the array.
\<close>

theorem candidates_in_bounds_counterexample:
  "coreChoice 4294967294 4294967295 = Inr (- 2)
   \<and> numCores exampleHuge = 4294967295
   \<and> length (occupiedAndCount exampleHuge) = 4294967295
   \<and> pickCandidates exampleHuge = Some (Inr (- 2, 5, exampleHuge\<lparr>mockRandomValues := []\<rparr>))
   \<and> createThread (7::nat) [] exampleHuge = Some (Inl OutOfBounds)"
proof -
  have len: "length hugeWords = 4294967295"
    by (simp only: hugeWords_def length_replicate)
  have pick: "pickCandidates exampleHuge =
      Some (Inr (- 2, 5, exampleHuge\<lparr>mockRandomValues := []\<rparr>))"
    by (simp add: coreChoice_def exampleHuge_def pickCandidates_def
        random64_def chooseOther.simps)
  have "createThread (7::nat) [] exampleHuge = Some (Inl OutOfBounds)"
    by (simp add: pick createThread_def loadNumOccupied_def)
  with len pick show ?thesis
    by (simp add: coreChoice_def exampleHuge_def)
qed

text \<open>
  Claim C7, amended. For \<open>1 \<le> numCores \<le> 2^31\<close> and every value of
  \<open>random()\<close>, each candidate lies in \<open>[0, numCores)\<close>, and with
  \<open>occupiedAndCount\<close> holding \<open>numCores\<close> words the reads of
  \<open>occupiedAndCount[choice1]\<close> and \<open>occupiedAndCount[choice2]\<close> are in
  bounds.
\<close>

theorem candidates_in_bounds:
  assumes n: "numCores s \<noteq> 0" "uint (numCores s) \<le> 2 ^ 31"
      and len: "length (occupiedAndCount s) = unat (numCores s)"
  shows "(\<exists>c. coreChoice r (numCores s) = Inr c \<and> 0 \<le> c \<and> c < uint (numCores s)
              \<and> loadNumOccupied c s = Inr (numOccupied (occupiedAndCount s ! nat c)))
       \<and> (pickCandidates s = None \<or>
          (\<exists>c1 c2 s3 n1 n2. pickCandidates s = Some (Inr (c1, c2, s3))
             \<and> 0 \<le> c1 \<and> c1 < uint (numCores s) \<and> 0 \<le> c2 \<and> c2 < uint (numCores s)
             \<and> loadNumOccupied c1 s3 = Inr n1 \<and> loadNumOccupied c2 s3 = Inr n2))"
proof -
  from coreChoice_range[OF n, of r] obtain c where
    c: "coreChoice r (numCores s) = Inr c" "0 \<le> c" "c < uint (numCores s)" by blast
  from loadNumOccupied_in_bounds[OF c(2,3) len] c have A:
    "\<exists>c. coreChoice r (numCores s) = Inr c \<and> 0 \<le> c \<and> c < uint (numCores s)
              \<and> loadNumOccupied c s = Inr (numOccupied (occupiedAndCount s ! nat c))"
    by blast
  have B: "pickCandidates s = None \<or>
          (\<exists>c1 c2 s3 n1 n2. pickCandidates s = Some (Inr (c1, c2, s3))
             \<and> 0 \<le> c1 \<and> c1 < uint (numCores s) \<and> 0 \<le> c2 \<and> c2 < uint (numCores s)
             \<and> loadNumOccupied c1 s3 = Inr n1 \<and> loadNumOccupied c2 s3 = Inr n2)"
  proof (cases "pickCandidates s = None")
    case True
    then show ?thesis by simp
  next
    case False
    with pickCandidates_range[OF n] obtain c1 c2 s3 where
      p: "pickCandidates s = Some (Inr (c1, c2, s3))"
         "0 \<le> c1" "c1 < uint (numCores s)" "0 \<le> c2" "c2 < uint (numCores s)"
         "occupiedAndCount s3 = occupiedAndCount s" by blast
    have "loadNumOccupied c1 s3 = loadNumOccupied c1 s" "loadNumOccupied c2 s3 = loadNumOccupied c2 s"
      using p(6) by (simp_all add: loadNumOccupied_def)
    with loadNumOccupied_in_bounds[OF p(2,3) len] loadNumOccupied_in_bounds[OF p(4,5) len] p
    show ?thesis by simp
  qed
  from A B show ?thesis by simp
qed

theorem candidates_in_bounds_witness:
  "coreChoice 9 (numCores exampleMock) = Inr 1
   \<and> loadNumOccupied 1 exampleMock = Inr 2
   \<and> pickCandidates exampleMock = Some (Inr (1, 0, exampleRuntime))"
proof -
  have n: "numCores exampleMock \<noteq> 0" "uint (numCores exampleMock) \<le> 2 ^ 31"
    by (simp_all add: exampleMock_def exampleRuntime_def)
  have len: "length (occupiedAndCount exampleMock) = unat (numCores exampleMock)"
    by (simp add: exampleMock_def exampleRuntime_def)
  have pick: "pickCandidates exampleMock = Some (Inr (1, 0, exampleRuntime))"
    by (simp add: pickCandidates_def exampleMock_def exampleRuntime_def random64_def
      coreChoice_def chooseOther.simps)
  have cc: "coreChoice 9 (numCores exampleMock) = Inr 1"
    by (simp add: coreChoice_def exampleMock_def exampleRuntime_def)
  have ld: "loadNumOccupied 1 exampleMock = Inr 2"
    by (simp add: loadNumOccupied_def exampleMock_def exampleRuntime_def)
  from candidates_in_bounds[OF n len, of 9] cc pick ld show ?thesis by simp
qed

section \<open>Properties of \<open>block\<close>\<close>

lemma storeWakeup_same:
  assumes "loadedWakeup s = w"
  shows "storeWakeup (loadedContext s) w s = s"
proof -
  obtain core slot where p: "loadedContext s = (core, slot)" by (cases "loadedContext s")
  let ?c = "activeLists s ! core ! slot"
  from assms p have "wakeupTimeInCycles ?c = w" by (simp add: loadedWakeup_def)
  then have "?c\<lparr>wakeupTimeInCycles := w\<rparr> = ?c" by simp
  then show ?thesis by (simp add: storeWakeup_def p)
qed

text \<open>
  Claim C1, as stated, fails: \<open>block\<close> stores nothing. A \<open>dispatch\<close> that
  returns at once receives the caller's context with \<open>wakeupTimeInCycles = 0\<close>,
  where the specified \<open>block\<close> hands it \<open>BLOCKED\<close>.
\<close>

theorem block_counterexample:
  "block Some exampleRuntime = Some exampleRuntime
   \<and> loadedWakeup exampleRuntime = 0
   \<and> BLOCKED \<noteq> 0
   \<and> map_option loadedWakeup (block_as_specified Some exampleRuntime) = Some BLOCKED"
  by (simp add: block_def block_as_specified_def storeWakeup_def exampleRuntime_def
      exampleContext_def BLOCKED_def loadedWakeup_def)

text \<open>
  Claim C1, amended. \<open>block()\<close> is exactly the call \<open>dispatch()\<close>:
  dispatcher selection runs on the state as the caller left it, and the outcome
  of \<open>block\<close> is the outcome of \<open>dispatch\<close>. It is the specified
  behaviour when the caller has stored \<open>BLOCKED\<close> beforehand.
\<close>

theorem block_is_dispatch:
  "block dispatch s = dispatch s
   \<and> (loadedWakeup s = BLOCKED \<longrightarrow> block dispatch s = block_as_specified dispatch s)"
  by (simp add: block_def block_as_specified_def storeWakeup_same)

theorem block_is_dispatch_witness:
  "loadedWakeup (storeWakeup (0, 0) BLOCKED exampleRuntime) = BLOCKED
   \<and> block Some (storeWakeup (0, 0) BLOCKED exampleRuntime)
       = block_as_specified Some (storeWakeup (0, 0) BLOCKED exampleRuntime)"
proof -
  have h: "loadedWakeup (storeWakeup (0, 0) BLOCKED exampleRuntime) = BLOCKED"
    by (simp add: loadedWakeup_def storeWakeup_def exampleRuntime_def)
  from block_is_dispatch[of Some "storeWakeup (0, 0) BLOCKED exampleRuntime"] h
  show ?thesis by blast
qed

section \<open>Properties of \<open>SpinLock\<close>\<close>

lemma lock_free:
  assumes "\<not> state l"
  shows "lock env l = Some (l\<lparr>state := True\<rparr>)"
  by (subst lock.simps) (use assms in \<open>simp add: exchange_def\<close>)

lemma lock_held_step:
  assumes "state l"
  shows "lock (released # env) l =
           lock env (if released then unlock (l\<lparr>state := True\<rparr>) else l\<lparr>state := True\<rparr>)"
  by (subst lock.simps) (use assms in \<open>simp add: exchange_def\<close>)

lemma lock_released:
  "True \<in> set env \<Longrightarrow> lock env l = Some (l\<lparr>state := True\<rparr>)"
proof (induction env arbitrary: l)
  case Nil
  then show ?case by simp
next
  case (Cons released env)
  show ?case
  proof (cases "state l")
    case False
    then show ?thesis by (simp add: lock_free)
  next
    case True
    note held = lock_held_step[OF True, of released env]
    show ?thesis
    proof (cases released)
      case True
      have "lock env (unlock (l\<lparr>state := True\<rparr>)) = Some ((unlock (l\<lparr>state := True\<rparr>))\<lparr>state := True\<rparr>)"
        by (rule lock_free) (simp add: unlock_def store_def)
      with held True show ?thesis by (simp add: unlock_def store_def)
    next
      case False
      with Cons.prems have "True \<in> set env" by auto
      from Cons.IH[OF this, of "l\<lparr>state := True\<rparr>"] held False show ?thesis by simp
    qed
  qed
qed

lemma lock_returns_only_when_free:
  assumes "lock env l = Some y"
  shows "state l = False \<or> True \<in> set env"
proof (rule lock.raw_induct
    [where P = "\<lambda>env l y. state l = False \<or> True \<in> set env", OF _ assms])
  fix f :: "bool list \<Rightarrow> SpinLock \<Rightarrow> SpinLock option"
  fix env l y
  assume IH: "\<And>env l y. f env l = Some y \<Longrightarrow> state l = False \<or> True \<in> set env"
  assume step: "(case exchange True l of
      (old, l') \<Rightarrow>
        if old \<noteq> False
        then case env of [] \<Rightarrow> f [] l'
             | released # env' \<Rightarrow>
                 f env' (if released then unlock l' else l')
        else Some l') = Some y"
  show "state l = False \<or> True \<in> set env"
  proof (cases "state l")
    case False
    then show ?thesis by simp
  next
    case True
    show ?thesis
    proof (cases env)
      case Nil
      with step True have "f [] (l\<lparr>state := True\<rparr>) = Some y" by (simp add: exchange_def)
      from IH[OF this] show ?thesis by simp
    next
      case (Cons released env')
      show ?thesis
      proof (cases released)
        case True
        with Cons show ?thesis by simp
      next
        case False
        with step True Cons have "f env' (l\<lparr>state := True\<rparr>) = Some y" by (simp add: exchange_def)
        from IH[OF this] Cons show ?thesis by simp
      qed
    qed
  qed
qed

lemma lock_char:
  "lock env l = (if state l = False \<or> True \<in> set env then Some (l\<lparr>state := True\<rparr>) else None)"
proof (cases "state l = False \<or> True \<in> set env")
  case True
  then show ?thesis using lock_free[of l env] lock_released[of env l] by auto
next
  case False
  have "lock env l = None"
  proof (cases "lock env l")
    case None
    then show ?thesis .
  next
    case (Some y)
    from lock_returns_only_when_free[OF this] False show ?thesis by simp
  qed
  with False show ?thesis by simp
qed

text \<open>
  Claim C9. \<open>try_lock\<close> is one exchange, returns true exactly when the lock
  was free before, and leaves the lock held either way. \<open>lock\<close> returns
  exactly when one of its exchanges sees the free state (the lock is free at
  the call, or its holder releases it at some point of the schedule), and then
  leaves the lock held; otherwise it spins forever. \<open>unlock\<close> stores the
  free state.
\<close>

theorem SpinLock_operations:
  "try_lock l = (\<not> fst (exchange True l), snd (exchange True l))
   \<and> fst (try_lock l) = (state l = False)
   \<and> state (snd (try_lock l)) = True
   \<and> lock env l =
       (if state l = False \<or> True \<in> set env then Some (l\<lparr>state := True\<rparr>) else None)
   \<and> unlock l = l\<lparr>state := False\<rparr>"
  using lock_char[of env l]
  by (simp add: try_lock_def exchange_def unlock_def store_def)

theorem SpinLock_operations_witness:
  "try_lock \<lparr>state = False\<rparr> = (True, \<lparr>state = True\<rparr>)
   \<and> try_lock \<lparr>state = True\<rparr> = (False, \<lparr>state = True\<rparr>)
   \<and> lock [] \<lparr>state = False\<rparr> = Some \<lparr>state = True\<rparr>
   \<and> lock [False, True] \<lparr>state = True\<rparr> = Some \<lparr>state = True\<rparr>
   \<and> lock [False, False] \<lparr>state = True\<rparr> = None
   \<and> unlock \<lparr>state = True\<rparr> = \<lparr>state = False\<rparr>"
  using SpinLock_operations[of "\<lparr>state = False\<rparr>" "[]"]
        SpinLock_operations[of "\<lparr>state = True\<rparr>" "[False, True]"]
        SpinLock_operations[of "\<lparr>state = True\<rparr>" "[False, False]"]
  by (simp add: exchange_def)

end
